theory Spec2Isabelle
  imports Complex_Main
begin

section \<open>The change listener of py-raildriver (raildriver/events.py)\<close>

text \<open>
  The class \<^verbatim>\<open>Listener\<close> polls a provider object (\<^verbatim>\<open>self._raildriver\<close>), keeps the
  values read in two dictionaries, and calls the callbacks bound under an event name when
  a value differs from the one of the pass before. The embedding below follows the
  methods of the class one by one.

  Conventions of the embedding.
  \<^item> A Python value is \<open>PyNone\<close> or \<open>PyVal v\<close>; \<^verbatim>\<open>!=\<close> on values is the negation of
    equality on \<open>'v\<close>.
  \<^item> An \<open>error\<close> is an instance of \<^verbatim>\<open>Exception\<close>; the constructor \<open>ValueError\<close> stands
    for every instance of \<^verbatim>\<open>ValueError\<close>, \<open>OtherError\<close> for the classes the listener
    neither raises nor catches by name.
  \<^item> A method that may raise returns \<open>(Some e, s')\<close> when it raises \<open>e\<close>, where \<open>s'\<close> holds
    the mutations done before the raise, and \<open>(None, s')\<close> when it returns.
  \<^item> The two snapshot dictionaries are objects in a store, \<open>heap\<close>; the attributes
    \<^verbatim>\<open>_current_data\<close> and \<^verbatim>\<open>_previous_data\<close> hold references (indices) into it, so that
    rebinding an attribute and mutating a dictionary in place are different things.
  \<^item> A callback receives \<open>(new, old)\<close> and returns or raises; it does not touch the
    listener. The answers of the provider are fixed during one pass of the loop.
  \<^item> \<open>trace\<close> is the log of the calls of \<^verbatim>\<open>_execute_bindings\<close>, in order, each with its
    event name and its two arguments; \<open>calls\<close> is the log of the calls of callbacks made by
    line 64, in order, each with the event name, the callback and its two arguments.
    Neither is an attribute of the class.
  \<^item> A string is a Python \<^verbatim>\<open>str\<close> of code points below 256, one \<open>char\<close> for each.
\<close>

datatype error =
    ValueError string
  | KeyError string
  | RuntimeError string
  | OtherError string

fun is_ValueError :: "error \<Rightarrow> bool" where
  "is_ValueError (ValueError _) = True"
| "is_ValueError _ = False"

datatype 'v pyval = PyNone | PyVal 'v

type_synonym 'v dict = "string \<rightharpoonup> 'v pyval"

type_synonym 'v callback = "'v pyval \<Rightarrow> 'v pyval \<Rightarrow> error option"

type_synonym 'v event = "string \<times> 'v pyval \<times> 'v pyval"

type_synonym 'v call = "string \<times> 'v callback \<times> 'v pyval \<times> 'v pyval"

text \<open>
  The argument of \<^verbatim>\<open>time.sleep\<close>: a number of seconds, or the float \<^verbatim>\<open>nan\<close>. \<^verbatim>\<open>time.sleep\<close>
  raises \<^verbatim>\<open>ValueError\<close> on a negative number and on \<^verbatim>\<open>nan\<close>; the time it takes otherwise is
  not modelled. A number stands for a duration the clock of the platform can hold.
\<close>

datatype interval = Seconds real | NaN

fun time_sleep :: "interval \<Rightarrow> error option" where
  "time_sleep (Seconds x) =
    (if x < 0 then Some (ValueError ''sleep length must be non-negative'') else None)"
| "time_sleep NaN = Some (ValueError ''Invalid value NaN (not a number)'')"

text \<open>
  The provider, as the listener uses it: \<open>get_current_controller_value name\<close>, the value of
  the expression \<^verbatim>\<open>getattr(self._raildriver, method_name)()\<close> for a method name, and
  \<open>get_controller_list\<close>, the pairs (index, name). Each of the first two returns a value
  (\<open>Inr\<close>) or raises (\<open>Inl\<close>). The listener accepts any object with these attributes. On the
  class \<^verbatim>\<open>RailDriver\<close> of raildriver/library.py the seven names of \<open>special_fields\<close> are
  properties, so there the expression calls the value of the property and raises
  \<^verbatim>\<open>TypeError\<close>: \<open>special_accessor\<close> is \<open>Inl\<close> for every name.
\<close>

record 'v provider =
  get_current_controller_value :: "string \<Rightarrow> error + 'v pyval"
  special_accessor :: "string \<Rightarrow> error + 'v pyval"
  get_controller_list :: "(nat \<times> string) list"

text \<open>
  The attributes of a listener. \<open>u_subscribed_fields\<close> and \<open>u_running\<close> are the attributes
  \<^verbatim>\<open>_subscribed_fields\<close> and \<^verbatim>\<open>_running\<close>; \<open>subscribed_fields\<close> and \<open>running\<close> are the
  attributes \<^verbatim>\<open>subscribed_fields\<close> and \<^verbatim>\<open>running\<close>, which the constructor does not set
  (\<open>None\<close>: not in the instance dictionary); \<open>u_interval\<close> is \<^verbatim>\<open>_interval\<close>. \<^verbatim>\<open>_thread\<close> and
  \<^verbatim>\<open>thread\<close> have no part in what follows and are left out.
\<close>

record 'v listener =
  u_interval :: interval
  bindings :: "string \<rightharpoonup> 'v callback list"
  heap :: "'v dict list"
  current_data :: nat
  previous_data :: nat
  u_subscribed_fields :: "string list"
  subscribed_fields :: "string list option"
  exc :: "error option"
  u_running :: bool
  running :: "bool option"
  iteration :: nat
  trace :: "'v event list"
  calls :: "'v call list"

definition special_fields :: "(string \<times> string) list" where
  "special_fields =
    [(''!Coordinates'', ''coordinates''),
     (''!FuelLevel'', ''fuel_level''),
     (''!Gradient'', ''gradient''),
     (''!Heading'', ''heading''),
     (''!IsInTunnel'', ''in_tunnel''),
     (''!LocoName'', ''loco_name''),
     (''!Time'', ''current_time'')]"

text \<open>
  \<^verbatim>\<open>__init__\<close>, with the default interval of 0.5: the two dictionaries of lines 53 and 54
  are two distinct empty objects (the two of lines 45 and 46 are dropped again by those
  lines). \<open>listener_with iv\<close> is the constructor called with the interval \<open>iv\<close>.
\<close>

definition listener_init :: "'v listener" where
  "listener_init =
    \<lparr>u_interval = Seconds (1 / 2), bindings = Map.empty, heap = [Map.empty, Map.empty],
     current_data = 0, previous_data = 1, u_subscribed_fields = [], subscribed_fields = None,
     exc = None, u_running = False, running = None, iteration = 0, trace = [], calls = []\<rparr>"

definition listener_with :: "interval \<Rightarrow> 'v listener" where
  "listener_with iv = listener_init\<lparr>u_interval := iv\<rparr>"

definition cur_dict :: "'v listener \<Rightarrow> 'v dict" where
  "cur_dict s = heap s ! current_data s"

definition prev_dict :: "'v listener \<Rightarrow> 'v dict" where
  "prev_dict s = heap s ! previous_data s"

text \<open>
  \<^verbatim>\<open>str.lower\<close>, and the two event names of lines 78 and 85. Below code point 256 the
  letters that \<^verbatim>\<open>str.lower\<close> changes are A to Z and the code points 0xC0 to 0xDE without
  0xD7; each goes to the code point 32 above it.
\<close>

definition upper_letters :: "char list" where
  "upper_letters =
    ''ABCDEFGHIJKLMNOPQRSTUVWXYZ'' @
    [CHR 0xC0, CHR 0xC1, CHR 0xC2, CHR 0xC3, CHR 0xC4, CHR 0xC5, CHR 0xC6, CHR 0xC7,
     CHR 0xC8, CHR 0xC9, CHR 0xCA, CHR 0xCB, CHR 0xCC, CHR 0xCD, CHR 0xCE, CHR 0xCF,
     CHR 0xD0, CHR 0xD1, CHR 0xD2, CHR 0xD3, CHR 0xD4, CHR 0xD5, CHR 0xD6,
     CHR 0xD8, CHR 0xD9, CHR 0xDA, CHR 0xDB, CHR 0xDC, CHR 0xDD, CHR 0xDE]"

definition lower_letters :: "char list" where
  "lower_letters =
    ''abcdefghijklmnopqrstuvwxyz'' @
    [CHR 0xE0, CHR 0xE1, CHR 0xE2, CHR 0xE3, CHR 0xE4, CHR 0xE5, CHR 0xE6, CHR 0xE7,
     CHR 0xE8, CHR 0xE9, CHR 0xEA, CHR 0xEB, CHR 0xEC, CHR 0xED, CHR 0xEE, CHR 0xEF,
     CHR 0xF0, CHR 0xF1, CHR 0xF2, CHR 0xF3, CHR 0xF4, CHR 0xF5, CHR 0xF6,
     CHR 0xF8, CHR 0xF9, CHR 0xFA, CHR 0xFB, CHR 0xFC, CHR 0xFD, CHR 0xFE]"

definition lower_char :: "char \<Rightarrow> char" where
  "lower_char c =
    (case map_of (zip upper_letters lower_letters) c of
       None \<Rightarrow> c
     | Some l \<Rightarrow> l)"

definition lower :: "string \<Rightarrow> string" where
  "lower cs = map lower_char cs"

definition binding_name :: "string \<Rightarrow> string" where
  "binding_name field_name = ''on_'' @ lower field_name @ ''_change''"

definition special_binding_name :: "string \<Rightarrow> string" where
  "special_binding_name field_name = ''on_'' @ lower (drop 1 field_name) @ ''_change''"

text \<open>
  \<^verbatim>\<open>__getattr__\<close> (it runs only for a name the normal lookup does not find):
  \<^verbatim>\<open>self._bindings[item]\<close> on a \<^verbatim>\<open>defaultdict(list)\<close> stores an empty list under a missing
  key. The method returns the \<^verbatim>\<open>append\<close> of that list; \<open>append_binding item\<close> is that
  function. No entry of \<^verbatim>\<open>_bindings\<close> is ever removed or replaced.
\<close>

definition getattr_item :: "string \<Rightarrow> 'v listener \<Rightarrow> 'v listener" where
  "getattr_item item s =
    (case bindings s item of
       None \<Rightarrow> s\<lparr>bindings := (bindings s)(item \<mapsto> [])\<rparr>
     | Some _ \<Rightarrow> s)"

definition append_binding :: "string \<Rightarrow> 'v callback \<Rightarrow> 'v listener \<Rightarrow> 'v listener" where
  "append_binding item cb s =
    (case bindings s item of
       None \<Rightarrow> s
     | Some cbs \<Rightarrow> s\<lparr>bindings := (bindings s)(item \<mapsto> cbs @ [cb])\<rparr>)"

text \<open>Client code: \<^verbatim>\<open>listener.on_x_change(callback)\<close>.\<close>

definition bind :: "string \<Rightarrow> 'v callback \<Rightarrow> 'v listener \<Rightarrow> 'v listener" where
  "bind item cb s = append_binding item cb (getattr_item item s)"

text \<open>
  \<^verbatim>\<open>_execute_bindings\<close>: \<^verbatim>\<open>dict.get\<close> does not create the entry. \<open>call_bindings\<close> is the loop
  of lines 63 and 64: each callback is called in the order of the list, and the first one
  that raises ends the loop. \<open>run_callbacks\<close> is what that loop raises.
\<close>

fun call_bindings ::
  "string \<Rightarrow> 'v callback list \<Rightarrow> 'v pyval \<Rightarrow> 'v pyval \<Rightarrow> 'v listener \<Rightarrow>
   error option \<times> 'v listener" where
  "call_bindings ty [] new old s = (None, s)"
| "call_bindings ty (b # bs) new old s =
    (case b new old of
       Some e \<Rightarrow> (Some e, s\<lparr>calls := calls s @ [(ty, b, new, old)]\<rparr>)
     | None \<Rightarrow> call_bindings ty bs new old (s\<lparr>calls := calls s @ [(ty, b, new, old)]\<rparr>))"

fun run_callbacks :: "'v callback list \<Rightarrow> 'v pyval \<Rightarrow> 'v pyval \<Rightarrow> error option" where
  "run_callbacks [] new old = None"
| "run_callbacks (b # bs) new old =
    (case b new old of Some e \<Rightarrow> Some e | None \<Rightarrow> run_callbacks bs new old)"

definition no_bindings_error :: "string \<Rightarrow> error" where
  "no_bindings_error ty =
    RuntimeError (''Expected bindings for type '' @ [CHR 0x27] @ ty @ [CHR 0x27] @ '' but none found'')"

definition execute_bindings ::
  "string \<Rightarrow> 'v pyval \<Rightarrow> 'v pyval \<Rightarrow> 'v listener \<Rightarrow> error option \<times> 'v listener" where
  "execute_bindings ty new old s =
    (let s' = s\<lparr>trace := trace s @ [(ty, new, old)]\<rparr> in
     case bindings s ty of
       None \<Rightarrow> (Some (no_bindings_error ty), s')
     | Some type_bindings \<Rightarrow> call_bindings ty type_bindings new old s')"

text \<open>Reads and writes of the dictionary \<^verbatim>\<open>self._current_data\<close> refers to.\<close>

definition dict_get :: "'v dict \<Rightarrow> string \<Rightarrow> 'v pyval" where
  "dict_get d k = (case d k of None \<Rightarrow> PyNone | Some v \<Rightarrow> v)"

definition store_current :: "string \<Rightarrow> 'v pyval \<Rightarrow> 'v listener \<Rightarrow> 'v listener" where
  "store_current k v s = s\<lparr>heap := (heap s)[current_data s := (cur_dict s)(k \<mapsto> v)]\<rparr>"

definition del_current :: "string \<Rightarrow> 'v listener \<Rightarrow> error option \<times> 'v listener" where
  "del_current k s =
    (case cur_dict s k of
       None \<Rightarrow> (Some (KeyError k), s)
     | Some _ \<Rightarrow> (None, s\<lparr>heap := (heap s)[current_data s := (cur_dict s)(k := None)]\<rparr>))"

text \<open>
  Lines 77 to 79 and 84 to 86: the comparison reads the old value with \<^verbatim>\<open>get\<close>, the call
  reads it again with a subscript, which raises \<^verbatim>\<open>KeyError\<close> on a missing key before
  \<^verbatim>\<open>_execute_bindings\<close> is entered.
\<close>

definition notify_change ::
  "string \<Rightarrow> string \<Rightarrow> 'v pyval \<Rightarrow> 'v listener \<Rightarrow> error option \<times> 'v listener" where
  "notify_change field_name ev current_value s =
    (if current_value \<noteq> dict_get (prev_dict s) field_name \<and> iteration s > 1 then
       (case prev_dict s field_name of
          None \<Rightarrow> (Some (KeyError field_name), s)
        | Some old \<Rightarrow> execute_bindings ev current_value old s)
     else (None, s))"

text \<open>The body of the loop of line 70, for one subscribed field.\<close>

definition poll_field :: "'v provider \<Rightarrow> string \<Rightarrow> 'v listener \<Rightarrow> error option \<times> 'v listener" where
  "poll_field p field_name s =
    (case get_current_controller_value p field_name of
       Inl e \<Rightarrow> (if is_ValueError e then del_current field_name s else (Some e, s))
     | Inr current_value \<Rightarrow>
         notify_change field_name (binding_name field_name) current_value
           (store_current field_name current_value s))"

fun poll_fields :: "'v provider \<Rightarrow> string list \<Rightarrow> 'v listener \<Rightarrow> error option \<times> 'v listener" where
  "poll_fields p [] s = (None, s)"
| "poll_fields p (f # fs) s =
    (case poll_field p f s of
       (Some e, s') \<Rightarrow> (Some e, s')
     | (None, s') \<Rightarrow> poll_fields p fs s')"

text \<open>The body of the loop of line 81, for one special field.\<close>

definition poll_special ::
  "'v provider \<Rightarrow> string \<times> string \<Rightarrow> 'v listener \<Rightarrow> error option \<times> 'v listener" where
  "poll_special p fm s =
    (case special_accessor p (snd fm) of
       Inl e \<Rightarrow> (Some e, s)
     | Inr current_value \<Rightarrow>
         notify_change (fst fm) (special_binding_name (fst fm)) current_value
           (store_current (fst fm) current_value s))"

fun poll_specials ::
  "'v provider \<Rightarrow> (string \<times> string) list \<Rightarrow> 'v listener \<Rightarrow> error option \<times> 'v listener" where
  "poll_specials p [] s = (None, s)"
| "poll_specials p (fm # fms) s =
    (case poll_special p fm s of
       (Some e, s') \<Rightarrow> (Some e, s')
     | (None, s') \<Rightarrow> poll_specials p fms s')"

text \<open>
  \<^verbatim>\<open>_main_iteration\<close>. \<^verbatim>\<open>copy.copy\<close> makes a new dictionary with the entries of the current
  one, and \<^verbatim>\<open>_previous_data\<close> is rebound to it. The copy is shallow; the values are numbers,
  tuples and other immutable objects, so the two dictionaries share nothing that can change.
\<close>

definition copy_current :: "'v listener \<Rightarrow> 'v listener" where
  "copy_current s = s\<lparr>heap := heap s @ [cur_dict s], previous_data := length (heap s)\<rparr>"

definition main_iteration :: "'v provider \<Rightarrow> 'v listener \<Rightarrow> error option \<times> 'v listener" where
  "main_iteration p s =
    (let s1 = s\<lparr>iteration := iteration s + 1\<rparr>;
         s2 = copy_current s1
     in case poll_fields p (u_subscribed_fields s2) s2 of
          (Some e, s3) \<Rightarrow> (Some e, s3)
        | (None, s3) \<Rightarrow> poll_specials p special_fields s3)"

text \<open>
  \<^verbatim>\<open>_main_loop\<close>. The test \<^verbatim>\<open>self.running\<close> reads the attribute \<^verbatim>\<open>running\<close>; while
  \<^verbatim>\<open>stop\<close> has not set it, the read goes through \<^verbatim>\<open>__getattr__\<close> and yields a bound
  method, which is true. The loop has no exit of its own: the list of providers gives the
  answers of the provider pass by pass, and its end is where the observation of the
  thread ends. \<^verbatim>\<open>time.sleep(self._interval)\<close> follows each pass inside the \<^verbatim>\<open>try\<close>.
\<close>

definition loop_test :: "'v listener \<Rightarrow> bool \<times> 'v listener" where
  "loop_test s =
    (case running s of
       None \<Rightarrow> (True, getattr_item ''running'' s)
     | Some b \<Rightarrow> (b, s))"

fun main_loop :: "'v provider list \<Rightarrow> 'v listener \<Rightarrow> 'v listener" where
  "main_loop [] s = s"
| "main_loop (p # ps) s =
    (case loop_test s of
       (False, s') \<Rightarrow> s'
     | (True, s') \<Rightarrow>
         (case main_iteration p s' of
            (Some e, s'') \<Rightarrow> s''\<lparr>exc := Some e\<rparr>
          | (None, s'') \<Rightarrow>
              (case time_sleep (u_interval s'') of
                 Some e \<Rightarrow> s''\<lparr>exc := Some e\<rparr>
               | None \<Rightarrow> main_loop ps s'')))"

text \<open>
  \<^verbatim>\<open>start\<close> sets \<^verbatim>\<open>_running\<close> and starts a thread that runs \<^verbatim>\<open>_main_loop\<close>; \<open>start_thread\<close>
  is \<^verbatim>\<open>start\<close> followed by the passes the new thread makes on the given answers.
  \<^verbatim>\<open>stop\<close> sets \<^verbatim>\<open>running\<close>.
\<close>

definition start :: "'v listener \<Rightarrow> 'v listener" where
  "start s = s\<lparr>u_running := True\<rparr>"

definition start_thread :: "'v provider list \<Rightarrow> 'v listener \<Rightarrow> 'v listener" where
  "start_thread ps s = main_loop ps (start s)"

definition stop :: "'v listener \<Rightarrow> 'v listener" where
  "stop s = s\<lparr>running := Some False\<rparr>"

text \<open>
  \<^verbatim>\<open>subscribe\<close>. \<^verbatim>\<open>dict(pairs)\<close> keeps the last value of a key; \<^verbatim>\<open>values()\<close> are the names.
  The assignment of line 142 is to the attribute \<^verbatim>\<open>subscribed_fields\<close>.
\<close>

fun dict_of_pairs :: "('k \<times> 'a) list \<Rightarrow> ('k \<times> 'a) list \<Rightarrow> ('k \<times> 'a) list" where
  "dict_of_pairs acc [] = acc"
| "dict_of_pairs acc ((k, v) # kvs) =
    dict_of_pairs (if k \<in> set (map fst acc)
                   then map (\<lambda>(k', v'). if k' = k then (k', v) else (k', v')) acc
                   else acc @ [(k, v)]) kvs"

definition available_controls :: "'v provider \<Rightarrow> string list" where
  "available_controls p = map snd (dict_of_pairs [] (get_controller_list p))"

definition missing_controller :: "string \<Rightarrow> error" where
  "missing_controller field = ValueError (''Cannot subscribe to a missing controller '' @ field)"

fun check_fields :: "string list \<Rightarrow> string list \<Rightarrow> error option" where
  "check_fields controls [] = None"
| "check_fields controls (field # rest) =
    (if field \<notin> set controls then Some (missing_controller field)
     else check_fields controls rest)"

definition subscribe :: "'v provider \<Rightarrow> string list \<Rightarrow> 'v listener \<Rightarrow> error option \<times> 'v listener" where
  "subscribe p field_names s =
    (case check_fields (available_controls p) field_names of
       Some e \<Rightarrow> (Some e, s)
     | None \<Rightarrow> (None, s\<lparr>subscribed_fields := Some field_names\<rparr>))"

text \<open>
  Predicates used to state the properties: the references of the two snapshots point into
  the store; \<open>frame s s'\<close> says that \<open>s'\<close> differs from \<open>s\<close> at most in the entries of the current
  snapshot and in longer logs; \<open>events_named n s\<close> are the logged calls of
  \<^verbatim>\<open>_execute_bindings\<close> for event name \<open>n\<close>, \<open>calls_named n s\<close> the logged calls of callbacks
  made for it.
\<close>

definition refs_ok :: "'v listener \<Rightarrow> bool" where
  "refs_ok s \<longleftrightarrow> current_data s < length (heap s) \<and> previous_data s < length (heap s)"

definition frame :: "'v listener \<Rightarrow> 'v listener \<Rightarrow> bool" where
  "frame s s' \<longleftrightarrow>
     bindings s' = bindings s \<and> current_data s' = current_data s \<and>
     previous_data s' = previous_data s \<and> length (heap s') = length (heap s) \<and>
     u_subscribed_fields s' = u_subscribed_fields s \<and>
     subscribed_fields s' = subscribed_fields s \<and> exc s' = exc s \<and>
     u_running s' = u_running s \<and> running s' = running s \<and>
     iteration s' = iteration s \<and> u_interval s' = u_interval s \<and>
     (\<forall>i. i \<noteq> current_data s \<longrightarrow> heap s' ! i = heap s ! i) \<and>
     (\<exists>evs. trace s' = trace s @ evs) \<and> (\<exists>cs. calls s' = calls s @ cs)"



text \<open>
  Concrete providers, callbacks and listeners, on which the properties below are
  evaluated. \<open>reading f v\<close> is a provider on which controller \<open>f\<close> reads \<open>v\<close> and every other
  name is unknown (\<^verbatim>\<open>get_controller_index\<close> raises \<^verbatim>\<open>ValueError\<close>); \<open>gone\<close> knows no
  controller at all. On both, every special accessor returns \<^verbatim>\<open>None\<close>.
\<close>

definition index_not_found :: "string \<Rightarrow> error" where
  "index_not_found name = ValueError (''Controller index not found for '' @ name)"

definition reading :: "string \<Rightarrow> int \<Rightarrow> int provider" where
  "reading f v =
    \<lparr>get_current_controller_value =
       (\<lambda>name. if name = f then Inr (PyVal v) else Inl (index_not_found name)),
     special_accessor = (\<lambda>_. Inr PyNone),
     get_controller_list = [(0, f)]\<rparr>"

definition gone :: "int provider" where
  "gone =
    \<lparr>get_current_controller_value = (\<lambda>name. Inl (index_not_found name)),
     special_accessor = (\<lambda>_. Inr PyNone),
     get_controller_list = []\<rparr>"

definition quiet_callback :: "int callback" where
  "quiet_callback new old = None"

definition tracking :: "string \<Rightarrow> int listener" where
  "tracking f = listener_init\<lparr>u_subscribed_fields := [f]\<rparr>"

text \<open>
  \<open>answers plain sp\<close> is a provider on which the controllers listed in \<open>plain\<close> answer as
  listed, every other name is unknown, and every special accessor answers \<open>sp\<close>.
\<close>

definition answers ::
  "(string \<times> (error + int pyval)) list \<Rightarrow> (error + int pyval) \<Rightarrow> int provider" where
  "answers plain sp =
    \<lparr>get_current_controller_value =
       (\<lambda>name. case map_of plain name of
                  None \<Rightarrow> Inl (index_not_found name)
                | Some r \<Rightarrow> r),
     special_accessor = (\<lambda>_. sp),
     get_controller_list = enumerate 0 (map fst plain)\<rparr>"





text \<open>
  \<open>outcome s ev\<close> is what the logged call \<open>ev\<close> of \<^verbatim>\<open>_execute_bindings\<close> raises on the registry
  of \<open>s\<close> (\<open>None\<close>: it returns).
\<close>

definition outcome :: "'v listener \<Rightarrow> 'v event \<Rightarrow> error option" where
  "outcome s ev = fst (execute_bindings (fst ev) (fst (snd ev)) (snd (snd ev)) s)"

text \<open>
  Sequencing, written out as functions: \<open>and_then\<close> is the rest of a method after a call
  that may raise, \<open>or_capture\<close> the handler of \<^verbatim>\<open>_main_loop\<close>, \<open>while_running\<close> its loop test,
  \<open>sleep_then\<close> the call of \<^verbatim>\<open>time.sleep\<close> and what follows it.
  The functions above are shown equal to their forms with these below; the forms serve to
  evaluate them on concrete inputs one call at a time.
\<close>

definition and_then ::
  "error option \<times> 'v listener \<Rightarrow> ('v listener \<Rightarrow> error option \<times> 'v listener) \<Rightarrow>
   error option \<times> 'v listener" where
  "and_then r k = (case r of (Some e, s') \<Rightarrow> (Some e, s') | (None, s') \<Rightarrow> k s')"

definition or_capture ::
  "error option \<times> 'v listener \<Rightarrow> ('v listener \<Rightarrow> 'v listener) \<Rightarrow> 'v listener" where
  "or_capture r k = (case r of (Some e, s') \<Rightarrow> s'\<lparr>exc := Some e\<rparr> | (None, s') \<Rightarrow> k s')"

definition while_running ::
  "bool \<times> 'v listener \<Rightarrow> ('v listener \<Rightarrow> 'v listener) \<Rightarrow> 'v listener" where
  "while_running t k = (case t of (False, s') \<Rightarrow> s' | (True, s') \<Rightarrow> k s')"

definition pass_then ::
  "('v listener \<Rightarrow> error option \<times> 'v listener) \<Rightarrow> ('v listener \<Rightarrow> 'v listener) \<Rightarrow>
   'v listener \<Rightarrow> 'v listener" where
  "pass_then it k s = or_capture (it s) k"

definition sleep_then :: "('v listener \<Rightarrow> 'v listener) \<Rightarrow> 'v listener \<Rightarrow> 'v listener" where
  "sleep_then k s =
    (case time_sleep (u_interval s) of Some e \<Rightarrow> s\<lparr>exc := Some e\<rparr> | None \<Rightarrow> k s)"

definition begin_pass :: "'v listener \<Rightarrow> 'v listener" where
  "begin_pass s = copy_current (s\<lparr>iteration := iteration s + 1\<rparr>)"

definition poll_all :: "'v provider \<Rightarrow> 'v listener \<Rightarrow> error option \<times> 'v listener" where
  "poll_all p s =
    and_then (poll_fields p (u_subscribed_fields s) s) (poll_specials p special_fields)"

section \<open>Evaluation on concrete inputs\<close>

lemma and_then_simps:
  "and_then (None, s) k = k s" "and_then (Some e, s) k = (Some e, s)"
  by (simp_all add: and_then_def)

lemma or_capture_simps:
  "or_capture (None, s) k = k s" "or_capture (Some e, s) k = s\<lparr>exc := Some e\<rparr>"
  by (simp_all add: or_capture_def)

lemma while_running_simps:
  "while_running (True, s) k = k s" "while_running (False, s) k = s"
  by (simp_all add: while_running_def)

lemma poll_fields_step: "poll_fields p (f # fs) s = and_then (poll_field p f s) (poll_fields p fs)"
  by (simp add: and_then_def)

lemma poll_specials_step:
  "poll_specials p (fm # fms) s = and_then (poll_special p fm s) (poll_specials p fms)"
  by (simp add: and_then_def)

lemma main_iteration_step: "main_iteration p s = poll_all p (begin_pass s)"
  by (simp add: main_iteration_def poll_all_def begin_pass_def and_then_def Let_def
        copy_current_def)

lemma main_loop_step:
  "main_loop (p # ps) s =
    while_running (loop_test s) (pass_then (main_iteration p) (sleep_then (main_loop ps)))"
  by (simp add: while_running_def pass_then_def or_capture_def sleep_then_def
        split: prod.splits bool.splits option.splits)

lemmas run_defs =
  poll_fields_step poll_specials_step main_iteration_step main_loop_step
  and_then_simps or_capture_simps while_running_simps pass_then_def begin_pass_def poll_all_def
  copy_current_def poll_field_def poll_special_def notify_change_def
  execute_bindings_def store_current_def del_current_def dict_get_def cur_dict_def
  prev_dict_def loop_test_def getattr_item_def append_binding_def bind_def
  special_fields_def start_thread_def start_def stop_def reading_def gone_def tracking_def
  listener_init_def listener_with_def index_not_found_def quiet_callback_def sleep_then_def
  Let_def


lemmas run_del = poll_fields.simps(2) poll_specials.simps(2) main_loop.simps(2)

lemmas name_defs = binding_name_def special_binding_name_def lower_def lower_char_def
  upper_letters_def lower_letters_def

lemma binding_name_Throttle: "binding_name ''Throttle'' = ''on_throttle_change''"
  by (simp add: name_defs)

lemma binding_name_Horn: "binding_name ''Horn'' = ''on_horn_change''"
  by (simp add: name_defs)

section \<open>Frame properties of one pass\<close>

lemma frame_refl: "frame s s"
  by (simp add: frame_def)

lemma frame_trans: "frame s t \<Longrightarrow> frame t u \<Longrightarrow> frame s u"
  unfolding frame_def by (elim conjE exE) simp

lemma call_bindings_fst: "fst (call_bindings ty bs new old s) = run_callbacks bs new old"
  by (induction bs arbitrary: s) (auto split: option.splits)

lemma call_bindings_snd:
  "\<exists>cs. snd (call_bindings ty bs new old s) = s\<lparr>calls := calls s @ cs\<rparr> \<and>
        (\<forall>c\<in>set cs. fst c = ty)"
proof (induction bs arbitrary: s)
  case Nil
  show ?case by (intro exI [of _ "[]"]) simp
next
  case (Cons b bs)
  let ?t = "s\<lparr>calls := calls s @ [(ty, b, new, old)]\<rparr>"
  show ?case
  proof (cases "b new old")
    case (Some e)
    then show ?thesis by (intro exI [of _ "[(ty, b, new, old)]"]) simp
  next
    case None
    from Cons.IH [of ?t] obtain cs where
      cs: "snd (call_bindings ty bs new old ?t) = ?t\<lparr>calls := calls ?t @ cs\<rparr>"
        "\<forall>c\<in>set cs. fst c = ty" by blast
    show ?thesis using None cs by (intro exI [of _ "(ty, b, new, old) # cs"]) simp
  qed
qed


lemma call_bindings_counter:
  "call_bindings ty bs new old (s\<lparr>iteration := k\<rparr>) =
     (fst (call_bindings ty bs new old s), (snd (call_bindings ty bs new old s))\<lparr>iteration := k\<rparr>)"
proof (induction bs arbitrary: s)
  case Nil
  show ?case by simp
next
  case (Cons b bs)
  have comm: "s\<lparr>iteration := k, calls := calls s @ [(ty, b, new, old)]\<rparr> =
      s\<lparr>calls := calls s @ [(ty, b, new, old)], iteration := k\<rparr>"
    by (cases s) simp
  show ?case
    using Cons.IH [of "s\<lparr>calls := calls s @ [(ty, b, new, old)]\<rparr>"]
    by (cases "b new old") (simp_all add: comm)
qed

lemma execute_bindings_eq:
  "\<exists>cs. execute_bindings ty new old s =
     ((case bindings s ty of None \<Rightarrow> Some (no_bindings_error ty)
       | Some bs \<Rightarrow> run_callbacks bs new old),
      s\<lparr>trace := trace s @ [(ty, new, old)], calls := calls s @ cs\<rparr>) \<and>
     (\<forall>c\<in>set cs. fst c = ty)"
proof (cases "bindings s ty")
  case None
  then show ?thesis by (intro exI [of _ "[]"]) (simp add: execute_bindings_def)
next
  case (Some bs)
  let ?t = "s\<lparr>trace := trace s @ [(ty, new, old)]\<rparr>"
  from call_bindings_snd [of ty bs new old ?t] obtain cs where
    cs: "snd (call_bindings ty bs new old ?t) = ?t\<lparr>calls := calls ?t @ cs\<rparr>"
      "\<forall>c\<in>set cs. fst c = ty" by blast
  show ?thesis
    using Some cs call_bindings_fst [of ty bs new old ?t]
    by (intro exI [of _ cs]) (simp add: execute_bindings_def prod_eq_iff)
qed


lemma execute_bindings_counter:
  "execute_bindings ty new old (s\<lparr>iteration := k\<rparr>) =
     (fst (execute_bindings ty new old s), (snd (execute_bindings ty new old s))\<lparr>iteration := k\<rparr>)"
proof (cases "bindings s ty")
  case None
  then show ?thesis by (simp add: execute_bindings_def)
next
  case (Some bs)
  have comm: "s\<lparr>iteration := k, trace := trace s @ [(ty, new, old)]\<rparr> =
      s\<lparr>trace := trace s @ [(ty, new, old)], iteration := k\<rparr>"
    by (cases s) simp
  from Some show ?thesis
    using call_bindings_counter [where ty = ty and bs = bs and new = new and old = old
        and s = "s\<lparr>trace := trace s @ [(ty, new, old)]\<rparr>" and k = k]
    by (simp add: execute_bindings_def comm)
qed

lemma execute_bindings_frame: "execute_bindings ty new old s = (r, s') \<Longrightarrow> frame s s'"
  using execute_bindings_eq [of ty new old s] by (auto simp: frame_def)

lemma notify_change_frame: "notify_change f ev v s = (r, s') \<Longrightarrow> frame s s'"
  by (auto simp: notify_change_def frame_refl split: if_splits option.splits
           dest: execute_bindings_frame)

lemma store_current_frame: "frame s (store_current k v s)"
  by (simp add: store_current_def frame_def)

lemma del_current_frame: "del_current k s = (r, s') \<Longrightarrow> frame s s'"
  by (auto simp: del_current_def frame_def split: option.splits)

lemma poll_field_frame: "poll_field p f s = (r, s') \<Longrightarrow> frame s s'"
  by (auto simp: poll_field_def frame_refl split: sum.splits if_splits
           dest: del_current_frame notify_change_frame
           intro: frame_trans [OF store_current_frame])

lemma poll_fields_frame: "poll_fields p fs s = (r, s') \<Longrightarrow> frame s s'"
proof (induction fs arbitrary: s)
  case Nil
  then show ?case by (simp add: frame_refl)
next
  case (Cons f fs)
  obtain r1 s1 where s1: "poll_field p f s = (r1, s1)" by (cases "poll_field p f s")
  show ?case
  proof (cases r1)
    case None
    with Cons.prems s1 have "poll_fields p fs s1 = (r, s')" by simp
    then have "frame s1 s'" by (rule Cons.IH)
    with poll_field_frame [OF s1] show ?thesis by (rule frame_trans)
  next
    case (Some e)
    with Cons.prems s1 have "s' = s1" by simp
    with poll_field_frame [OF s1] show ?thesis by simp
  qed
qed

lemma poll_special_frame: "poll_special p fm s = (r, s') \<Longrightarrow> frame s s'"
  by (auto simp: poll_special_def frame_refl split: sum.splits
           dest: notify_change_frame intro: frame_trans [OF store_current_frame])

lemma poll_specials_frame: "poll_specials p fms s = (r, s') \<Longrightarrow> frame s s'"
proof (induction fms arbitrary: s)
  case Nil
  then show ?case by (simp add: frame_refl)
next
  case (Cons fm fms)
  obtain r1 s1 where s1: "poll_special p fm s = (r1, s1)" by (cases "poll_special p fm s")
  show ?case
  proof (cases r1)
    case None
    with Cons.prems s1 have "poll_specials p fms s1 = (r, s')" by simp
    then have "frame s1 s'" by (rule Cons.IH)
    with poll_special_frame [OF s1] show ?thesis by (rule frame_trans)
  next
    case (Some e)
    with Cons.prems s1 have "s' = s1" by simp
    with poll_special_frame [OF s1] show ?thesis by simp
  qed
qed

section \<open>The first pass\<close>

lemma notify_change_quiet: "iteration s \<le> 1 \<Longrightarrow> notify_change f ev v s = (None, s)"
  by (simp add: notify_change_def)

lemma poll_field_quiet:
  "iteration s \<le> 1 \<Longrightarrow>
   trace (snd (poll_field p f s)) = trace s \<and> calls (snd (poll_field p f s)) = calls s"
  by (auto simp: poll_field_def del_current_def store_current_def notify_change_def
           split: sum.splits option.splits)

lemma poll_fields_quiet:
  "iteration s \<le> 1 \<Longrightarrow>
   trace (snd (poll_fields p fs s)) = trace s \<and> calls (snd (poll_fields p fs s)) = calls s"
proof (induction fs arbitrary: s)
  case Nil
  then show ?case by simp
next
  case (Cons f fs)
  obtain r1 s1 where s1: "poll_field p f s = (r1, s1)" by (cases "poll_field p f s")
  from poll_field_frame [OF s1] Cons.prems have it: "iteration s1 \<le> 1"
    by (simp add: frame_def)
  from poll_field_quiet [OF Cons.prems, of p f] s1
  have tr: "trace s1 = trace s" "calls s1 = calls s" by simp_all
  show ?case
  proof (cases r1)
    case None
    with s1 have "poll_fields p (f # fs) s = poll_fields p fs s1" by simp
    with Cons.IH [OF it] tr show ?thesis by simp
  next
    case (Some e)
    with s1 tr show ?thesis by simp
  qed
qed

lemma poll_special_quiet:
  "iteration s \<le> 1 \<Longrightarrow>
   trace (snd (poll_special p fm s)) = trace s \<and> calls (snd (poll_special p fm s)) = calls s"
  by (auto simp: poll_special_def store_current_def notify_change_def split: sum.splits)

lemma poll_specials_quiet:
  "iteration s \<le> 1 \<Longrightarrow>
   trace (snd (poll_specials p fms s)) = trace s \<and>
   calls (snd (poll_specials p fms s)) = calls s"
proof (induction fms arbitrary: s)
  case Nil
  then show ?case by simp
next
  case (Cons fm fms)
  obtain r1 s1 where s1: "poll_special p fm s = (r1, s1)" by (cases "poll_special p fm s")
  from poll_special_frame [OF s1] Cons.prems have it: "iteration s1 \<le> 1"
    by (simp add: frame_def)
  from poll_special_quiet [OF Cons.prems, of p fm] s1
  have tr: "trace s1 = trace s" "calls s1 = calls s" by simp_all
  show ?case
  proof (cases r1)
    case None
    with s1 have "poll_specials p (fm # fms) s = poll_specials p fms s1" by simp
    with Cons.IH [OF it] tr show ?thesis by simp
  next
    case (Some e)
    with s1 tr show ?thesis by simp
  qed
qed

lemma main_iteration_first_quiet:
  assumes "iteration s = 0"
  shows "trace (snd (main_iteration p s)) = trace s \<and> calls (snd (main_iteration p s)) = calls s"
proof -
  define s2 where "s2 = copy_current (s\<lparr>iteration := iteration s + 1\<rparr>)"
  have it2: "iteration s2 \<le> 1" and tr2: "trace s2 = trace s" "calls s2 = calls s"
    using assms by (simp_all add: s2_def copy_current_def)
  obtain r3 s3 where s3: "poll_fields p (u_subscribed_fields s2) s2 = (r3, s3)"
    by (cases "poll_fields p (u_subscribed_fields s2) s2")
  from poll_fields_quiet [OF it2, of p "u_subscribed_fields s2"] s3 tr2
  have tr3: "trace s3 = trace s" "calls s3 = calls s" by simp_all
  from poll_fields_frame [OF s3] it2 have it3: "iteration s3 \<le> 1" by (simp add: frame_def)
  show ?thesis
  proof (cases r3)
    case None
    with s3 have "main_iteration p s = poll_specials p special_fields s3"
      by (simp add: main_iteration_def Let_def s2_def)
    with poll_specials_quiet [OF it3, of p special_fields] tr3 show ?thesis by simp
  next
    case (Some e)
    with s3 have "main_iteration p s = (Some e, s3)"
      by (simp add: main_iteration_def Let_def s2_def)
    with tr3 show ?thesis by simp
  qed
qed

lemma loop_test_fields:
  "iteration (snd (loop_test s)) = iteration s" "trace (snd (loop_test s)) = trace s"
  "heap (snd (loop_test s)) = heap s" "current_data (snd (loop_test s)) = current_data s"
  "previous_data (snd (loop_test s)) = previous_data s"
  "u_subscribed_fields (snd (loop_test s)) = u_subscribed_fields s"
  "running (snd (loop_test s)) = running s" "exc (snd (loop_test s)) = exc s"
  "calls (snd (loop_test s)) = calls s" "u_interval (snd (loop_test s)) = u_interval s"
  by (simp_all add: loop_test_def getattr_item_def split: option.splits)

section \<open>Reading an attribute and the registry of callbacks\<close>



section \<open>Stopping, starting again, subscribing\<close>

text \<open>
  Claim C5, as the code has it. A second \<^verbatim>\<open>stop\<close> changes nothing. A \<^verbatim>\<open>start\<close> after it sets
  \<^verbatim>\<open>_running\<close> and leaves the counter and the two snapshots as they are: nothing in the
  class resets them.
\<close>

theorem stop_twice_then_start:
  "stop (stop s) = stop s \<and> u_running (start (stop (stop s))) \<and>
   iteration (start (stop (stop s))) = iteration s \<and>
   prev_dict (start (stop (stop s))) = prev_dict s \<and>
   cur_dict (start (stop (stop s))) = cur_dict s"
  by (simp add: stop_def start_def prev_dict_def cur_dict_def)

text \<open>
  Claim C5 as the specification states it fails: after two passes, two calls of
  \<^verbatim>\<open>stop\<close> and a new \<^verbatim>\<open>start\<close>, the counter is 2 and the previous snapshot still holds the
  value read on the first pass. The thread of the new \<^verbatim>\<open>start\<close> finds \<^verbatim>\<open>running\<close> false, as
  \<^verbatim>\<open>stop\<close> left it, and makes no pass.
\<close>

theorem restart_resets_nothing:
  "iteration (start (stop (stop
     (start_thread [reading ''Horn'' 1, reading ''Horn'' 1] (tracking ''Horn''))))) = 2 \<and>
   prev_dict (start (stop (stop
     (start_thread [reading ''Horn'' 1, reading ''Horn'' 1] (tracking ''Horn'')))))
     ''Horn'' = Some (PyVal 1) \<and>
   iteration (start_thread [reading ''Horn'' 3] (stop (stop
     (start_thread [reading ''Horn'' 1, reading ''Horn'' 1] (tracking ''Horn''))))) = 2"
  by (simp add: run_defs del: run_del)

text \<open>
  Claim C4 at a concrete input. The name is known to the provider, \<^verbatim>\<open>subscribe\<close> returns
  without an error, and the list \<^verbatim>\<open>_subscribed_fields\<close> that \<^verbatim>\<open>_main_iteration\<close> walks is
  still empty: the assignment went to \<^verbatim>\<open>subscribed_fields\<close>. The pass that follows does not
  read the controller.
\<close>

theorem subscribe_misses_tracked_fields:
  "subscribe (reading ''Throttle'' 5) [''Throttle''] listener_init =
     (None, listener_init\<lparr>subscribed_fields := Some [''Throttle'']\<rparr>) \<and>
   u_subscribed_fields (snd (subscribe (reading ''Throttle'' 5) [''Throttle''] listener_init)) = [] \<and>
   cur_dict (start_thread [reading ''Throttle'' 5]
     (snd (subscribe (reading ''Throttle'' 5) [''Throttle''] listener_init))) ''Throttle'' = None"
  by (simp add: subscribe_def available_controls_def missing_controller_def run_defs
           del: run_del)

section \<open>A field the provider no longer knows\<close>

text \<open>
  Claim C6 at a concrete input. The controller reads 1 on the first pass and is unknown
  from the second pass on. The second pass removes the entry and raises nothing; the third
  pass finds no entry to remove, \<^verbatim>\<open>del\<close> raises \<^verbatim>\<open>KeyError\<close>, and the loop ends with it.
\<close>

theorem missing_field_second_pass_raises:
  "exc (start_thread [reading ''Horn'' 1, gone] (tracking ''Horn'')) = None \<and>
   cur_dict (start_thread [reading ''Horn'' 1, gone] (tracking ''Horn'')) ''Horn'' = None \<and>
   trace (start_thread [reading ''Horn'' 1, gone] (tracking ''Horn'')) = [] \<and>
   exc (start_thread [reading ''Horn'' 1, gone, gone] (tracking ''Horn'')) =
     Some (KeyError ''Horn'')"
  by (simp add: run_defs del: run_del)

section \<open>The two snapshots\<close>

lemma refs_ok_init: "refs_ok listener_init"
  by (simp add: refs_ok_def listener_init_def)

lemma frame_refs_ok: "frame s s' \<Longrightarrow> refs_ok s \<Longrightarrow> refs_ok s'"
  by (simp add: frame_def refs_ok_def)

lemma frame_prev_dict:
  "frame s s' \<Longrightarrow> previous_data s \<noteq> current_data s \<Longrightarrow> prev_dict s' = prev_dict s"
  by (simp add: frame_def prev_dict_def)

lemma begin_pass_fields:
  "current_data (begin_pass s) = current_data s"
  "previous_data (begin_pass s) = length (heap s)"
  "heap (begin_pass s) = heap s @ [cur_dict s]"
  "iteration (begin_pass s) = iteration s + 1"
  "trace (begin_pass s) = trace s"
  "bindings (begin_pass s) = bindings s"
  "u_subscribed_fields (begin_pass s) = u_subscribed_fields s"
  "running (begin_pass s) = running s"
  "exc (begin_pass s) = exc s"
  by (simp_all add: begin_pass_def copy_current_def cur_dict_def)

lemma begin_pass_snapshots:
  assumes "refs_ok s"
  shows "refs_ok (begin_pass s)" and "previous_data (begin_pass s) \<noteq> current_data (begin_pass s)"
    and "prev_dict (begin_pass s) = cur_dict s" and "cur_dict (begin_pass s) = cur_dict s"
  using assms
  by (simp_all add: refs_ok_def begin_pass_fields prev_dict_def cur_dict_def nth_append)

lemma main_iteration_frame:
  assumes "main_iteration p s = (r, s')"
  shows "frame (begin_pass s) s'"
proof -
  obtain r3 s3 where s3: "poll_fields p (u_subscribed_fields (begin_pass s)) (begin_pass s) = (r3, s3)"
    by (cases "poll_fields p (u_subscribed_fields (begin_pass s)) (begin_pass s)")
  have f3: "frame (begin_pass s) s3" using s3 by (rule poll_fields_frame)
  show ?thesis
  proof (cases r3)
    case None
    with s3 assms have "poll_specials p special_fields s3 = (r, s')"
      by (simp add: main_iteration_step poll_all_def and_then_def)
    then have "frame s3 s'" by (rule poll_specials_frame)
    with f3 show ?thesis by (rule frame_trans)
  next
    case (Some e)
    with s3 assms have "s' = s3"
      by (simp add: main_iteration_step poll_all_def and_then_def)
    with f3 show ?thesis by simp
  qed
qed

lemma main_iteration_refs_ok: "main_iteration p s = (r, s') \<Longrightarrow> refs_ok s \<Longrightarrow> refs_ok s'"
  using main_iteration_frame frame_refs_ok begin_pass_snapshots(1) by blast

lemma store_current_prev:
  "previous_data s \<noteq> current_data s \<Longrightarrow> prev_dict (store_current k v s) = prev_dict s"
  by (simp add: store_current_def prev_dict_def)

lemma del_current_prev:
  "previous_data s \<noteq> current_data s \<Longrightarrow> prev_dict (snd (del_current k s)) = prev_dict s"
  by (simp add: del_current_def prev_dict_def split: option.splits)

lemma refs_ok_loop_test: "refs_ok s \<Longrightarrow> refs_ok (snd (loop_test s))"
  by (simp add: refs_ok_def loop_test_fields)

lemma refs_ok_main_loop: "refs_ok s \<Longrightarrow> refs_ok (main_loop ps s)"
proof (induction ps arbitrary: s)
  case Nil
  then show ?case by simp
next
  case (Cons p ps)
  obtain b s1 where lt: "loop_test s = (b, s1)" by (cases "loop_test s")
  with refs_ok_loop_test [OF Cons.prems] have ok1: "refs_ok s1" by simp
  obtain r s2 where mi: "main_iteration p s1 = (r, s2)" by (cases "main_iteration p s1")
  have ok2: "refs_ok s2" using mi ok1 by (rule main_iteration_refs_ok)
  then have ok2': "refs_ok (s2\<lparr>exc := r\<rparr>)" by (simp add: refs_ok_def)
  show ?case
    using lt mi ok1 ok2' Cons.IH [OF ok2]
    by (cases b; cases r; cases "time_sleep (u_interval s2)") (simp_all add: refs_ok_def)
qed

lemma refs_ok_configure:
  "refs_ok s \<Longrightarrow> refs_ok (start s)" "refs_ok s \<Longrightarrow> refs_ok (stop s)"
  "refs_ok s \<Longrightarrow> refs_ok (bind item cb s)"
  "refs_ok s \<Longrightarrow> refs_ok (snd (subscribe p names s))"
  "refs_ok s \<Longrightarrow> refs_ok (s\<lparr>u_subscribed_fields := fs\<rparr>)"
  by (simp_all add: refs_ok_def start_def stop_def bind_def append_binding_def getattr_item_def
        subscribe_def split: option.splits)

text \<open>
  Claim C8. Let \<open>s\<close> be the listener when a pass begins, that is, as the pass before left it.
  When the pass is over (or has raised), \<^verbatim>\<open>_previous_data\<close> refers to another dictionary
  than \<^verbatim>\<open>_current_data\<close>, and that dictionary holds exactly the entries the current snapshot
  had in \<open>s\<close>: none of the stores and deletions of the pass has reached it. A further store
  into, or deletion from, the current snapshot does not change it either.
\<close>

theorem previous_is_copy_of_current:
  assumes "refs_ok s" and "main_iteration p s = (r, s')"
  shows "previous_data s' \<noteq> current_data s' \<and> prev_dict s' = cur_dict s \<and>
         prev_dict (store_current k v s') = cur_dict s \<and>
         prev_dict (snd (del_current k s')) = cur_dict s"
proof -
  have fr: "frame (begin_pass s) s'" using assms(2) by (rule main_iteration_frame)
  have ne0: "previous_data (begin_pass s) \<noteq> current_data (begin_pass s)"
    using assms(1) by (rule begin_pass_snapshots)
  have ne: "previous_data s' \<noteq> current_data s'" using fr ne0 by (simp add: frame_def)
  have "prev_dict s' = prev_dict (begin_pass s)" using fr ne0 by (rule frame_prev_dict)
  then have eq: "prev_dict s' = cur_dict s" using assms(1) by (simp add: begin_pass_snapshots)
  from ne eq show ?thesis by (simp add: store_current_prev del_current_prev)
qed

theorem previous_is_copy_of_current_witness:
  "refs_ok (snd (main_iteration (reading ''Horn'' 1) (tracking ''Horn''))) \<and>
   previous_data (snd (main_iteration (reading ''Horn'' 2)
       (snd (main_iteration (reading ''Horn'' 1) (tracking ''Horn''))))) \<noteq>
     current_data (snd (main_iteration (reading ''Horn'' 2)
       (snd (main_iteration (reading ''Horn'' 1) (tracking ''Horn''))))) \<and>
   prev_dict (snd (main_iteration (reading ''Horn'' 2)
       (snd (main_iteration (reading ''Horn'' 1) (tracking ''Horn''))))) =
     cur_dict (snd (main_iteration (reading ''Horn'' 1) (tracking ''Horn''))) \<and>
   prev_dict (snd (main_iteration (reading ''Horn'' 2)
       (snd (main_iteration (reading ''Horn'' 1) (tracking ''Horn''))))) ''Horn'' =
     Some (PyVal 1) \<and>
   cur_dict (snd (main_iteration (reading ''Horn'' 2)
       (snd (main_iteration (reading ''Horn'' 1) (tracking ''Horn''))))) ''Horn'' =
     Some (PyVal 2)"
proof -
  let ?s1 = "snd (main_iteration (reading ''Horn'' 1) (tracking ''Horn''))"
  have h: "refs_ok ?s1"
    by (simp add: refs_ok_def run_defs del: run_del)
  have e: "main_iteration (reading ''Horn'' 2) ?s1 =
    (fst (main_iteration (reading ''Horn'' 2) ?s1), snd (main_iteration (reading ''Horn'' 2) ?s1))"
    by simp
  have c1: "cur_dict ?s1 ''Horn'' = Some (PyVal 1)"
    by (simp add: run_defs del: run_del)
  have c2: "cur_dict (snd (main_iteration (reading ''Horn'' 2) ?s1)) ''Horn'' = Some (PyVal 2)"
    by (simp add: run_defs del: run_del)
  show ?thesis
    using h c1 c2 previous_is_copy_of_current [OF h e, of "''Horn''" "PyVal 2"] by simp
qed

section \<open>The counter of passes\<close>

lemma notify_change_counter:
  assumes "1 < iteration s" and "1 < k"
  shows "notify_change f ev v (s\<lparr>iteration := k\<rparr>) =
         (fst (notify_change f ev v s), (snd (notify_change f ev v s))\<lparr>iteration := k\<rparr>)"
  using assms
  by (simp add: notify_change_def execute_bindings_counter prev_dict_def split: option.splits)

lemma poll_field_counter:
  assumes "1 < iteration s" and "1 < k"
  shows "poll_field p f (s\<lparr>iteration := k\<rparr>) =
         (fst (poll_field p f s), (snd (poll_field p f s))\<lparr>iteration := k\<rparr>)"
proof (cases "get_current_controller_value p f")
  case (Inl e)
  then show ?thesis
    by (simp add: poll_field_def del_current_def cur_dict_def split: option.splits)
next
  case (Inr v)
  have st: "store_current f v (s\<lparr>iteration := k\<rparr>) = (store_current f v s)\<lparr>iteration := k\<rparr>"
    by (simp add: store_current_def cur_dict_def)
  have "1 < iteration (store_current f v s)" using assms(1) by (simp add: store_current_def)
  from notify_change_counter [OF this assms(2)] Inr st show ?thesis
    by (simp add: poll_field_def)
qed

lemma poll_special_counter:
  assumes "1 < iteration s" and "1 < k"
  shows "poll_special p fm (s\<lparr>iteration := k\<rparr>) =
         (fst (poll_special p fm s), (snd (poll_special p fm s))\<lparr>iteration := k\<rparr>)"
proof (cases "special_accessor p (snd fm)")
  case (Inl e)
  then show ?thesis by (simp add: poll_special_def)
next
  case (Inr v)
  have st: "store_current (fst fm) v (s\<lparr>iteration := k\<rparr>) =
      (store_current (fst fm) v s)\<lparr>iteration := k\<rparr>"
    by (simp add: store_current_def cur_dict_def)
  have "1 < iteration (store_current (fst fm) v s)" using assms(1) by (simp add: store_current_def)
  from notify_change_counter [OF this assms(2)] Inr st show ?thesis
    by (simp add: poll_special_def)
qed

lemma poll_fields_counter:
  "1 < iteration s \<Longrightarrow> 1 < k \<Longrightarrow>
   poll_fields p fs (s\<lparr>iteration := k\<rparr>) =
     (fst (poll_fields p fs s), (snd (poll_fields p fs s))\<lparr>iteration := k\<rparr>)"
proof (induction fs arbitrary: s)
  case Nil
  then show ?case by simp
next
  case (Cons f fs)
  obtain r1 s1 where s1: "poll_field p f s = (r1, s1)" by (cases "poll_field p f s")
  have i1: "1 < iteration s1" using poll_field_frame [OF s1] Cons.prems(1) by (simp add: frame_def)
  from poll_field_counter [OF Cons.prems, of p f] s1
  have k1: "poll_field p f (s\<lparr>iteration := k\<rparr>) = (r1, s1\<lparr>iteration := k\<rparr>)" by simp
  show ?case
  proof (cases r1)
    case None
    with s1 k1 Cons.IH [OF i1 Cons.prems(2)] show ?thesis by simp
  next
    case (Some e)
    with s1 k1 show ?thesis by simp
  qed
qed

lemma poll_specials_counter:
  "1 < iteration s \<Longrightarrow> 1 < k \<Longrightarrow>
   poll_specials p fms (s\<lparr>iteration := k\<rparr>) =
     (fst (poll_specials p fms s), (snd (poll_specials p fms s))\<lparr>iteration := k\<rparr>)"
proof (induction fms arbitrary: s)
  case Nil
  then show ?case by simp
next
  case (Cons fm fms)
  obtain r1 s1 where s1: "poll_special p fm s = (r1, s1)" by (cases "poll_special p fm s")
  have i1: "1 < iteration s1"
    using poll_special_frame [OF s1] Cons.prems(1) by (simp add: frame_def)
  from poll_special_counter [OF Cons.prems, of p fm] s1
  have k1: "poll_special p fm (s\<lparr>iteration := k\<rparr>) = (r1, s1\<lparr>iteration := k\<rparr>)" by simp
  show ?case
  proof (cases r1)
    case None
    with s1 k1 Cons.IH [OF i1 Cons.prems(2)] show ?thesis by simp
  next
    case (Some e)
    with s1 k1 show ?thesis by simp
  qed
qed

lemma main_iteration_counter:
  assumes "1 \<le> iteration s" and "1 \<le> k"
  shows "main_iteration p (s\<lparr>iteration := k\<rparr>) =
         (fst (main_iteration p s), (snd (main_iteration p s))\<lparr>iteration := k + 1\<rparr>)"
proof -
  let ?b = "begin_pass s"
  have b: "begin_pass (s\<lparr>iteration := k\<rparr>) = ?b\<lparr>iteration := k + 1\<rparr>"
    by (simp add: begin_pass_def copy_current_def cur_dict_def)
  have ib: "1 < iteration ?b" and k: "1 < k + 1" using assms by (simp_all add: begin_pass_fields)
  obtain r3 s3 where s3: "poll_fields p (u_subscribed_fields ?b) ?b = (r3, s3)"
    by (cases "poll_fields p (u_subscribed_fields ?b) ?b")
  have i3: "1 < iteration s3" using poll_fields_frame [OF s3] ib by (simp add: frame_def)
  from poll_fields_counter [OF ib k, of p "u_subscribed_fields ?b"] s3
  have k3: "poll_fields p (u_subscribed_fields ?b) (?b\<lparr>iteration := k + 1\<rparr>) =
      (r3, s3\<lparr>iteration := k + 1\<rparr>)" by simp
  show ?thesis
  proof (cases r3)
    case None
    with s3 k3 b poll_specials_counter [OF i3 k, of p special_fields] show ?thesis
      by (simp add: main_iteration_step poll_all_def and_then_def)
  next
    case (Some e)
    with s3 k3 b show ?thesis
      by (simp add: main_iteration_step poll_all_def and_then_def)
  qed
qed

text \<open>
  Claim C2, as the code has it. The counter is 0 when the constructor returns, and
  \<^verbatim>\<open>start\<close>, \<^verbatim>\<open>stop\<close>, \<^verbatim>\<open>subscribe\<close> and the registration of a callback leave it as it is;
  only a pass counts it up. On the pass that begins with the counter at 0, the first
  pass the listener ever makes, \<^verbatim>\<open>_execute_bindings\<close> is not called and no callback is
  called, for a subscribed field or for a special one: both logs after the pass, and after
  the thread that \<^verbatim>\<open>start\<close> runs has made that pass, are the logs before. This holds for every
  list of subscribed fields, every registry of callbacks and every answer of the provider,
  also when the pass ends in an error. The counter has no other effect: two listeners that
  have both made a pass and differ in the counter only make the same next pass, up to the
  counter.
\<close>

theorem first_pass_dispatches_nothing:
  fixes s :: "'v listener"
  assumes "iteration s = 0"
  shows "trace (snd (main_iteration p s)) = trace s \<and> trace (start_thread [p] s) = trace s \<and>
         (1 \<le> iteration t \<and> 1 \<le> k \<longrightarrow>
            main_iteration q (t\<lparr>iteration := k\<rparr>) =
              (fst (main_iteration q t), (snd (main_iteration q t))\<lparr>iteration := k + 1\<rparr>)) \<and>
         calls (snd (main_iteration p s)) = calls s \<and> calls (start_thread [p] s) = calls s \<and>
         iteration (listener_with iv :: 'v listener) = 0 \<and> iteration (start s) = 0 \<and>
         iteration (stop s) = 0 \<and> iteration (bind item cb s) = 0 \<and>
         iteration (snd (subscribe q names s)) = 0"
proof -
  have pass: "trace (snd (main_iteration p s)) = trace s" "calls (snd (main_iteration p s)) = calls s"
    using main_iteration_first_quiet [OF assms, of p] by simp_all
  have indep: "1 \<le> iteration t \<and> 1 \<le> k \<longrightarrow>
            main_iteration q (t\<lparr>iteration := k\<rparr>) =
              (fst (main_iteration q t), (snd (main_iteration q t))\<lparr>iteration := k + 1\<rparr>)"
    by (simp add: main_iteration_counter)
  obtain b s1 where lt: "loop_test (start s) = (b, s1)" by (cases "loop_test (start s)")
  from lt loop_test_fields(1,2,9) [of "start s"] assms
  have s1: "iteration s1 = 0" "trace s1 = trace s" "calls s1 = calls s"
    by (simp_all add: start_def)
  obtain r s2 where mi: "main_iteration p s1 = (r, s2)" by (cases "main_iteration p s1")
  from main_iteration_first_quiet [OF s1(1), of p] mi s1(2,3)
  have s2: "trace s2 = trace s" "calls s2 = calls s" by simp_all
  have thread: "trace (start_thread [p] s) = trace s" "calls (start_thread [p] s) = calls s"
    using lt mi s1(2,3) s2
    by (cases b; cases r; cases "time_sleep (u_interval s2)"; simp add: start_thread_def)+
  have conf: "iteration (listener_with iv :: 'v listener) = 0" "iteration (start s) = 0"
    "iteration (stop s) = 0" "iteration (bind item cb s) = 0"
    "iteration (snd (subscribe q names s)) = 0"
    using assms
    by (simp_all add: listener_with_def listener_init_def start_def stop_def bind_def
          append_binding_def getattr_item_def subscribe_def split: option.splits)
  from pass indep thread conf show ?thesis by simp
qed

theorem first_pass_dispatches_nothing_witness:
  "iteration (bind ''on_throttle_change'' quiet_callback (tracking ''Throttle'')) = 0 \<and>
   trace (snd (main_iteration (reading ''Throttle'' 5)
     (bind ''on_throttle_change'' quiet_callback (tracking ''Throttle'')))) =
   trace (bind ''on_throttle_change'' quiet_callback (tracking ''Throttle'')) \<and>
   calls (start_thread [reading ''Throttle'' 5]
     (bind ''on_throttle_change'' quiet_callback (tracking ''Throttle''))) =
   calls (bind ''on_throttle_change'' quiet_callback (tracking ''Throttle'')) \<and>
   1 \<le> iteration (start_thread [reading ''Throttle'' 5] (tracking ''Throttle'')) \<and>
   main_iteration (reading ''Throttle'' 7)
     ((start_thread [reading ''Throttle'' 5] (tracking ''Throttle''))\<lparr>iteration := 9\<rparr>) =
   (fst (main_iteration (reading ''Throttle'' 7)
          (start_thread [reading ''Throttle'' 5] (tracking ''Throttle''))),
    (snd (main_iteration (reading ''Throttle'' 7)
          (start_thread [reading ''Throttle'' 5] (tracking ''Throttle''))))\<lparr>iteration := 10\<rparr>)"
proof -
  have h: "iteration (bind ''on_throttle_change'' quiet_callback (tracking ''Throttle'')) = 0"
    by (simp add: bind_def append_binding_def getattr_item_def tracking_def listener_init_def)
  have i: "1 \<le> iteration (start_thread [reading ''Throttle'' 5] (tracking ''Throttle''))"
    by (simp add: run_defs del: run_del)
  show ?thesis
    using h i first_pass_dispatches_nothing [OF h, where p = "reading ''Throttle'' 5"
        and t = "start_thread [reading ''Throttle'' 5] (tracking ''Throttle'')" and k = 9
        and q = "reading ''Throttle'' 7"]
    by simp
qed

text \<open>
  Claim C2 as the specification states it fails for a \<^verbatim>\<open>start\<close> that is not the first. On
  the first pass the controller reads 5 and a special accessor raises, as every one does
  on \<^verbatim>\<open>RailDriver\<close>; the loop ends with the error and with the counter at 1. \<^verbatim>\<open>start\<close> is
  called again and resets nothing. On the first pass after it the controller reads 7:
  \<^verbatim>\<open>_execute_bindings\<close> is called and the callback receives (7, 5).
\<close>

theorem first_pass_after_second_start_dispatches:
  "exc (start_thread [answers [(''Throttle'', Inr (PyVal 5))] (Inl (OtherError ''TypeError''))]
     (bind ''on_throttle_change'' quiet_callback (tracking ''Throttle''))) =
     Some (OtherError ''TypeError'') \<and>
   trace (start_thread [answers [(''Throttle'', Inr (PyVal 5))] (Inl (OtherError ''TypeError''))]
     (bind ''on_throttle_change'' quiet_callback (tracking ''Throttle''))) = [] \<and>
   trace (start_thread [reading ''Throttle'' 7]
     (start_thread [answers [(''Throttle'', Inr (PyVal 5))] (Inl (OtherError ''TypeError''))]
       (bind ''on_throttle_change'' quiet_callback (tracking ''Throttle'')))) =
     [(''on_throttle_change'', PyVal 7, PyVal 5)] \<and>
   calls (start_thread [reading ''Throttle'' 7]
     (start_thread [answers [(''Throttle'', Inr (PyVal 5))] (Inl (OtherError ''TypeError''))]
       (bind ''on_throttle_change'' quiet_callback (tracking ''Throttle'')))) =
     [(''on_throttle_change'', quiet_callback, PyVal 7, PyVal 5)]"
  by (simp add: run_defs answers_def binding_name_Throttle del: run_del)

section \<open>Errors of a pass and the loop\<close>

lemma main_loop_capture:
  "loop_test s = (True, s1) \<Longrightarrow> main_iteration p s1 = (Some e, s2) \<Longrightarrow>
   main_loop (p # ps) s = s2\<lparr>exc := Some e\<rparr>"
  by simp

lemma main_loop_sleep_error:
  "loop_test s = (True, s1) \<Longrightarrow> main_iteration p s1 = (None, s2) \<Longrightarrow>
   time_sleep (u_interval s2) = Some e \<Longrightarrow> main_loop (p # ps) s = s2\<lparr>exc := Some e\<rparr>"
  by simp

lemma negative_interval_ends_loop:
  "exc (start_thread [reading ''Horn'' 1, reading ''Horn'' 2]
     ((tracking ''Horn'')\<lparr>u_interval := Seconds (- 1)\<rparr>)) =
     Some (ValueError ''sleep length must be non-negative'') \<and>
   iteration (start_thread [reading ''Horn'' 1, reading ''Horn'' 2]
     ((tracking ''Horn'')\<lparr>u_interval := Seconds (- 1)\<rparr>)) = 1"
  by (simp add: run_defs del: run_del)

lemma poll_fields_append:
  "poll_fields p (xs @ ys) s = and_then (poll_fields p xs s) (poll_fields p ys)"
proof (induction xs arbitrary: s)
  case Nil
  then show ?case by (simp add: and_then_def)
next
  case (Cons x xs)
  then show ?case
    by (cases "poll_field p x s") (auto simp: and_then_def split: option.splits)
qed

lemma poll_specials_append:
  "poll_specials p (xs @ ys) s = and_then (poll_specials p xs s) (poll_specials p ys)"
proof (induction xs arbitrary: s)
  case Nil
  then show ?case by (simp add: and_then_def)
next
  case (Cons x xs)
  then show ?case
    by (cases "poll_special p x s") (auto simp: and_then_def split: option.splits)
qed

lemma loop_test_True:
  assumes "loop_test s = (True, s1)"
  shows "heap s1 = heap s" "current_data s1 = current_data s" "previous_data s1 = previous_data s"
    "iteration s1 = iteration s" "u_subscribed_fields s1 = u_subscribed_fields s"
    "trace s1 = trace s" "exc s1 = exc s" "running s1 = running s"
  using assms loop_test_fields [of s] by simp_all

text \<open>
  Claim C10. A pass with the counter above 1 reaches the subscribed field \<open>f\<close> (the fields
  before it are polled without an error); the current snapshot had no entry for \<open>f\<close> when
  the pass began, so the copy has none; the provider returns a value other than \<^verbatim>\<open>None\<close>.
  Then the pass raises \<^verbatim>\<open>KeyError\<close> for \<open>f\<close> after the store and before
  \<^verbatim>\<open>_execute_bindings\<close> is called (the log is as it was before \<open>f\<close>), and the loop ends with
  this error in \<^verbatim>\<open>_exc\<close>, whatever the provider would answer later.
\<close>

theorem new_field_raises_KeyError:
  assumes "refs_ok s" and "loop_test s = (True, s1)" and "1 \<le> iteration s"
    and "u_subscribed_fields s = xs @ f # ys"
    and "poll_fields p xs (begin_pass s1) = (None, t)"
    and "cur_dict s f = None"
    and "get_current_controller_value p f = Inr v" and "v \<noteq> PyNone"
  shows "main_iteration p s1 = (Some (KeyError f), store_current f v t) \<and>
         trace (store_current f v t) = trace t \<and>
         main_loop (p # ps) s = (store_current f v t)\<lparr>exc := Some (KeyError f)\<rparr>"
proof -
  have r1: "refs_ok s1" and c1: "cur_dict s1 = cur_dict s"
    using assms(1) loop_test_True [OF assms(2)] by (simp_all add: refs_ok_def cur_dict_def)
  have fr: "frame (begin_pass s1) t" using assms(5) by (rule poll_fields_frame)
  have ne0: "previous_data (begin_pass s1) \<noteq> current_data (begin_pass s1)"
    using r1 by (rule begin_pass_snapshots)
  have "prev_dict t = prev_dict (begin_pass s1)" using fr ne0 by (rule frame_prev_dict)
  then have pt: "prev_dict t = cur_dict s" using r1 c1 by (simp add: begin_pass_snapshots)
  have net: "previous_data t \<noteq> current_data t" using fr ne0 by (simp add: frame_def)
  have it: "1 < iteration t"
    using fr assms(3) loop_test_True(4) [OF assms(2)] by (simp add: frame_def begin_pass_fields)
  have ps: "prev_dict (store_current f v t) = cur_dict s"
    using net pt by (simp add: store_current_prev)
  have its: "iteration (store_current f v t) = iteration t" by (simp add: store_current_def)
  have pf: "poll_field p f t = (Some (KeyError f), store_current f v t)"
    using assms(6,7,8) ps it its by (simp add: poll_field_def notify_change_def dict_get_def)
  have "poll_fields p (xs @ f # ys) (begin_pass s1) = (Some (KeyError f), store_current f v t)"
    using assms(5) pf by (simp add: poll_fields_append and_then_def)
  then have mi: "main_iteration p s1 = (Some (KeyError f), store_current f v t)"
    using assms(4) loop_test_True(5) [OF assms(2)]
    by (simp add: main_iteration_step poll_all_def and_then_def begin_pass_fields)
  have tr: "trace (store_current f v t) = trace t" by (simp add: store_current_def)
  from mi tr main_loop_capture [OF assms(2) mi] show ?thesis by simp
qed

theorem new_field_raises_KeyError_witness:
  "refs_ok (start_thread [reading ''Horn'' 1, gone] (tracking ''Horn'')) \<and>
   1 \<le> iteration (start_thread [reading ''Horn'' 1, gone] (tracking ''Horn'')) \<and>
   u_subscribed_fields (start_thread [reading ''Horn'' 1, gone] (tracking ''Horn'')) =
     [] @ ''Horn'' # [] \<and>
   cur_dict (start_thread [reading ''Horn'' 1, gone] (tracking ''Horn'')) ''Horn'' = None \<and>
   get_current_controller_value (reading ''Horn'' 3) ''Horn'' = Inr (PyVal 3) \<and>
   exc (main_loop [reading ''Horn'' 3, reading ''Horn'' 4]
     (start_thread [reading ''Horn'' 1, gone] (tracking ''Horn''))) = Some (KeyError ''Horn'') \<and>
   trace (main_loop [reading ''Horn'' 3, reading ''Horn'' 4]
     (start_thread [reading ''Horn'' 1, gone] (tracking ''Horn''))) = []"
proof -
  let ?s = "start_thread [reading ''Horn'' 1, gone] (tracking ''Horn'')"
  have h1: "refs_ok ?s" by (simp add: refs_ok_def run_defs del: run_del)
  have h2: "loop_test ?s = (True, ?s)" by (simp add: run_defs del: run_del)
  have h3: "1 \<le> iteration ?s" by (simp add: run_defs del: run_del)
  have h4: "u_subscribed_fields ?s = [] @ ''Horn'' # []" by (simp add: run_defs del: run_del)
  have h5: "poll_fields (reading ''Horn'' 3) [] (begin_pass ?s) = (None, begin_pass ?s)" by simp
  have h6: "cur_dict ?s ''Horn'' = None" by (simp add: run_defs del: run_del)
  have h7: "get_current_controller_value (reading ''Horn'' 3) ''Horn'' = Inr (PyVal 3)"
    by (simp add: reading_def)
  have h8: "PyVal (3::int) \<noteq> PyNone" by simp
  have t: "trace (begin_pass ?s) = []" by (simp add: run_defs del: run_del)
  show ?thesis
    using h1 h3 h4 h6 h7 t
      new_field_raises_KeyError [OF h1 h2 h3 h4 h5 h6 h7 h8, of "[reading ''Horn'' 4]"]
    by simp
qed

section \<open>Errors raised by a dispatch\<close>

lemma outcome_bindings: "bindings s = bindings t \<Longrightarrow> outcome s ev = outcome t ev"
  by (simp add: outcome_def execute_bindings_def call_bindings_fst Let_def split: option.splits)

lemma outcome_eq:
  "outcome s (ty, new, old) =
    (case bindings s ty of None \<Rightarrow> Some (no_bindings_error ty)
     | Some cbs \<Rightarrow> run_callbacks cbs new old)"
  by (simp add: outcome_def execute_bindings_def call_bindings_fst Let_def split: option.splits)

lemma notify_change_outcome:
  assumes "notify_change f ev v s = (r, s')"
  shows "\<exists>evs. trace s' = trace s @ evs \<and> (\<forall>x\<in>set evs. outcome s x = None \<or> outcome s x = r)"
proof (cases "v \<noteq> dict_get (prev_dict s) f \<and> iteration s > 1")
  case False
  with assms have "s' = s" by (auto simp: notify_change_def)
  then show ?thesis by simp
next
  case True
  show ?thesis
  proof (cases "prev_dict s f")
    case None
    with True assms have "s' = s" by (auto simp: notify_change_def)
    then show ?thesis by simp
  next
    case (Some old)
    with True assms have ex: "execute_bindings ev v old s = (r, s')"
      by (auto simp: notify_change_def)
    from execute_bindings_eq [of ev v old s] ex
    have "trace s' = trace s @ [(ev, v, old)]" by auto
    moreover have "outcome s (ev, v, old) = r" using ex by (simp add: outcome_def)
    ultimately show ?thesis by simp
  qed
qed

lemma poll_field_outcome:
  assumes "poll_field p f s = (r, s')"
  shows "\<exists>evs. trace s' = trace s @ evs \<and> (\<forall>x\<in>set evs. outcome s x = None \<or> outcome s x = r)"
proof (cases "get_current_controller_value p f")
  case (Inl e)
  with assms have "trace s' = trace s"
    by (auto simp: poll_field_def del_current_def split: if_splits option.splits)
  then show ?thesis by simp
next
  case (Inr v)
  with assms have n: "notify_change f (binding_name f) v (store_current f v s) = (r, s')"
    by (simp add: poll_field_def)
  have b: "bindings (store_current f v s) = bindings s" "trace (store_current f v s) = trace s"
    by (simp_all add: store_current_def)
  from notify_change_outcome [OF n] b outcome_bindings [OF b(1)] show ?thesis by simp
qed

lemma poll_special_outcome:
  assumes "poll_special p fm s = (r, s')"
  shows "\<exists>evs. trace s' = trace s @ evs \<and> (\<forall>x\<in>set evs. outcome s x = None \<or> outcome s x = r)"
proof (cases "special_accessor p (snd fm)")
  case (Inl e)
  with assms have "trace s' = trace s" by (simp add: poll_special_def)
  then show ?thesis by simp
next
  case (Inr v)
  with assms have n: "notify_change (fst fm) (special_binding_name (fst fm)) v
      (store_current (fst fm) v s) = (r, s')"
    by (simp add: poll_special_def)
  have b: "bindings (store_current (fst fm) v s) = bindings s"
    "trace (store_current (fst fm) v s) = trace s"
    by (simp_all add: store_current_def)
  from notify_change_outcome [OF n] b outcome_bindings [OF b(1)] show ?thesis by simp
qed

lemma poll_fields_outcome:
  "poll_fields p fs s = (r, s') \<Longrightarrow>
   \<exists>evs. trace s' = trace s @ evs \<and> (\<forall>x\<in>set evs. outcome s x = None \<or> outcome s x = r)"
proof (induction fs arbitrary: s)
  case Nil
  then show ?case by simp
next
  case (Cons f fs)
  obtain r1 s1 where s1: "poll_field p f s = (r1, s1)" by (cases "poll_field p f s")
  from poll_field_outcome [OF s1] obtain e1 where
    e1: "trace s1 = trace s @ e1" "\<forall>x\<in>set e1. outcome s x = None \<or> outcome s x = r1" by blast
  show ?case
  proof (cases r1)
    case (Some e)
    with Cons.prems s1 have "s' = s1" "r = r1" by simp_all
    with e1 show ?thesis by blast
  next
    case None
    with Cons.prems s1 have rest: "poll_fields p fs s1 = (r, s')" by simp
    from Cons.IH [OF rest] obtain e2 where
      e2: "trace s' = trace s1 @ e2" "\<forall>x\<in>set e2. outcome s1 x = None \<or> outcome s1 x = r" by blast
    have "bindings s1 = bindings s" using poll_field_frame [OF s1] by (simp add: frame_def)
    then have o: "\<And>x. outcome s1 x = outcome s x" by (rule outcome_bindings)
    have "trace s' = trace s @ (e1 @ e2)" using e1(1) e2(1) by simp
    moreover have "\<forall>x\<in>set (e1 @ e2). outcome s x = None \<or> outcome s x = r"
      using e1(2) e2(2) None o by auto
    ultimately show ?thesis by blast
  qed
qed

lemma poll_specials_outcome:
  "poll_specials p fms s = (r, s') \<Longrightarrow>
   \<exists>evs. trace s' = trace s @ evs \<and> (\<forall>x\<in>set evs. outcome s x = None \<or> outcome s x = r)"
proof (induction fms arbitrary: s)
  case Nil
  then show ?case by simp
next
  case (Cons fm fms)
  obtain r1 s1 where s1: "poll_special p fm s = (r1, s1)" by (cases "poll_special p fm s")
  from poll_special_outcome [OF s1] obtain e1 where
    e1: "trace s1 = trace s @ e1" "\<forall>x\<in>set e1. outcome s x = None \<or> outcome s x = r1" by blast
  show ?case
  proof (cases r1)
    case (Some e)
    with Cons.prems s1 have "s' = s1" "r = r1" by simp_all
    with e1 show ?thesis by blast
  next
    case None
    with Cons.prems s1 have rest: "poll_specials p fms s1 = (r, s')" by simp
    from Cons.IH [OF rest] obtain e2 where
      e2: "trace s' = trace s1 @ e2" "\<forall>x\<in>set e2. outcome s1 x = None \<or> outcome s1 x = r" by blast
    have "bindings s1 = bindings s" using poll_special_frame [OF s1] by (simp add: frame_def)
    then have o: "\<And>x. outcome s1 x = outcome s x" by (rule outcome_bindings)
    have "trace s' = trace s @ (e1 @ e2)" using e1(1) e2(1) by simp
    moreover have "\<forall>x\<in>set (e1 @ e2). outcome s x = None \<or> outcome s x = r"
      using e1(2) e2(2) None o by auto
    ultimately show ?thesis by blast
  qed
qed

lemma main_iteration_outcome:
  assumes "main_iteration p s = (r, s')" and "x \<in> set (drop (length (trace s)) (trace s'))"
  shows "outcome s x = None \<or> outcome s x = r"
proof -
  let ?b = "begin_pass s"
  have ob: "\<And>y. outcome ?b y = outcome s y"
    by (rule outcome_bindings) (simp add: begin_pass_fields)
  obtain r3 s3 where s3: "poll_fields p (u_subscribed_fields ?b) ?b = (r3, s3)"
    by (cases "poll_fields p (u_subscribed_fields ?b) ?b")
  from poll_fields_outcome [OF s3] obtain e1 where
    e1: "trace s3 = trace s @ e1" "\<forall>y\<in>set e1. outcome s y = None \<or> outcome s y = r3"
    using ob by (auto simp: begin_pass_fields)
  show ?thesis
  proof (cases r3)
    case (Some e)
    with s3 assms(1) have "s' = s3" "r = r3"
      by (simp_all add: main_iteration_step poll_all_def and_then_def)
    with e1 assms(2) show ?thesis by auto
  next
    case None
    with s3 assms(1) have rest: "poll_specials p special_fields s3 = (r, s')"
      by (simp add: main_iteration_step poll_all_def and_then_def)
    from poll_specials_outcome [OF rest] obtain e2 where
      e2: "trace s' = trace s3 @ e2" "\<forall>y\<in>set e2. outcome s3 y = None \<or> outcome s3 y = r" by blast
    have "bindings s3 = bindings ?b" using poll_fields_frame [OF s3] by (simp add: frame_def)
    then have o: "\<And>y. outcome s3 y = outcome s y" using ob outcome_bindings by metis
    have "x \<in> set (e1 @ e2)" using assms(2) e1(1) e2(1) by simp
    then show ?thesis using e1(2) e2(2) None o by auto
  qed
qed

text \<open>
  Claim C3, as the code has it. During a pass of the loop \<^verbatim>\<open>_execute_bindings\<close> is called
  for an event name that has no entry in the registry (no attribute of that name was ever
  read on the listener). Then the call raises the \<^verbatim>\<open>RuntimeError\<close> of line 62, the pass ends
  with it, and the loop ends with this error in \<^verbatim>\<open>_exc\<close>, whatever the provider would
  answer later.
\<close>

theorem dispatch_without_entry_ends_loop:
  assumes "loop_test s = (True, s1)" and "main_iteration p s1 = (r, s2)"
    and "(ty, new, old) \<in> set (drop (length (trace s1)) (trace s2))"
    and "bindings s1 ty = None"
  shows "fst (execute_bindings ty new old s1) = Some (no_bindings_error ty) \<and>
         r = Some (no_bindings_error ty) \<and>
         main_loop (p # ps) s = s2\<lparr>exc := Some (no_bindings_error ty)\<rparr>"
proof -
  have o: "outcome s1 (ty, new, old) = Some (no_bindings_error ty)"
    using assms(4) by (simp add: outcome_eq)
  with main_iteration_outcome [OF assms(2,3)] have r: "r = Some (no_bindings_error ty)" by simp
  with assms(2) have "main_iteration p s1 = (Some (no_bindings_error ty), s2)" by simp
  from main_loop_capture [OF assms(1) this] r o show ?thesis by (simp add: outcome_def)
qed

theorem dispatch_without_entry_ends_loop_witness:
  "bindings (start_thread [reading ''Horn'' 1] (tracking ''Horn'')) ''on_horn_change'' = None \<and>
   (''on_horn_change'', PyVal 2, PyVal 1) \<in>
     set (drop (length (trace (start_thread [reading ''Horn'' 1] (tracking ''Horn''))))
       (trace (snd (main_iteration (reading ''Horn'' 2)
         (start_thread [reading ''Horn'' 1] (tracking ''Horn'')))))) \<and>
   exc (main_loop [reading ''Horn'' 2, reading ''Horn'' 3]
     (start_thread [reading ''Horn'' 1] (tracking ''Horn''))) =
     Some (no_bindings_error ''on_horn_change'') \<and>
   iteration (main_loop [reading ''Horn'' 2, reading ''Horn'' 3]
     (start_thread [reading ''Horn'' 1] (tracking ''Horn''))) = 2"
proof -
  let ?s = "start_thread [reading ''Horn'' 1] (tracking ''Horn'')"
  let ?p = "reading ''Horn'' 2"
  have h1: "loop_test ?s = (True, ?s)" by (simp add: run_defs del: run_del)
  have h2: "main_iteration ?p ?s = (fst (main_iteration ?p ?s), snd (main_iteration ?p ?s))"
    by simp
  have h3: "(''on_horn_change'', PyVal 2, PyVal 1) \<in>
     set (drop (length (trace ?s)) (trace (snd (main_iteration ?p ?s))))"
    by (simp add: run_defs binding_name_Horn del: run_del)
  have h4: "bindings ?s ''on_horn_change'' = None" by (simp add: run_defs del: run_del)
  have i: "iteration (snd (main_iteration ?p ?s)) = 2" by (simp add: run_defs del: run_del)
  show ?thesis
    using h3 h4 i dispatch_without_entry_ends_loop [OF h1 h2 h3 h4, of "[reading ''Horn'' 3]"]
    by simp
qed

text \<open>
  Claim C3 as the specification states it fails. The attribute \<^verbatim>\<open>on_horn_change\<close> is read
  once and no callback is ever appended. The controller changes from 1 to 2 on the second
  pass: \<^verbatim>\<open>_execute_bindings\<close> is called for \<^verbatim>\<open>on_horn_change\<close>, finds the empty list, raises
  nothing, and the loop goes on.
\<close>

theorem dispatch_after_read_is_silent:
  "bindings (start_thread [reading ''Horn'' 1, reading ''Horn'' 2]
      (getattr_item ''on_horn_change'' (tracking ''Horn''))) ''on_horn_change'' = Some [] \<and>
   trace (start_thread [reading ''Horn'' 1, reading ''Horn'' 2]
      (getattr_item ''on_horn_change'' (tracking ''Horn''))) =
     [(''on_horn_change'', PyVal 2, PyVal 1)] \<and>
   exc (start_thread [reading ''Horn'' 1, reading ''Horn'' 2]
      (getattr_item ''on_horn_change'' (tracking ''Horn''))) = None \<and>
   iteration (start_thread [reading ''Horn'' 1, reading ''Horn'' 2, reading ''Horn'' 2]
      (getattr_item ''on_horn_change'' (tracking ''Horn''))) = 3"
  by (simp add: run_defs binding_name_Horn del: run_del)






section \<open>The events of one subscribed field\<close>















end
